theory Spec2Isabelle
  imports Complex_Main "HOL-Library.Word" "HOL-Library.Multiset"
begin

section \<open>float64 values\<close>

text \<open>
  The Go type \<open>Probability\<close> is a \<open>float64\<close>. A float64 is modelled as a finite real, one of
  the two infinities, or NaN. Comparisons behave as in Go: every ordered comparison with
  NaN is false. An arithmetic operation on finite values computes the exact real result and
  rounds it to binary64 (\<open>round64\<close>): to the nearest value with a 53-bit significand and an
  exponent in the binary64 range, ties going to the even significand, and to an infinity
  when the rounded magnitude reaches \<open>2 ^ 1024\<close>. A statement about every \<open>Fin x\<close> covers
  in particular every \<open>x\<close> that binary64 represents. The sign of zero is not modelled (Go's
  comparisons do not see it).
\<close>

datatype float64 = Fin real | PosInf | NegInf | NaN

type_synonym Probability = float64

fun f_lt :: "float64 \<Rightarrow> float64 \<Rightarrow> bool" where
  "f_lt NaN _ = False"
| "f_lt _ NaN = False"
| "f_lt (Fin x) (Fin y) = (x < y)"
| "f_lt (Fin _) PosInf = True"
| "f_lt (Fin _) NegInf = False"
| "f_lt PosInf _ = False"
| "f_lt NegInf NegInf = False"
| "f_lt NegInf _ = True"

definition f_gt :: "float64 \<Rightarrow> float64 \<Rightarrow> bool" where
  "f_gt a b = f_lt b a"

fun f_eq :: "float64 \<Rightarrow> float64 \<Rightarrow> bool" where
  "f_eq (Fin x) (Fin y) = (x = y)"
| "f_eq PosInf PosInf = True"
| "f_eq NegInf NegInf = True"
| "f_eq _ _ = False"

definition f_le :: "float64 \<Rightarrow> float64 \<Rightarrow> bool" where
  "f_le a b = (f_lt a b \<or> f_eq a b)"

fun f_neg :: "float64 \<Rightarrow> float64" where
  "f_neg (Fin x) = Fin (- x)"
| "f_neg PosInf = NegInf"
| "f_neg NegInf = PosInf"
| "f_neg NaN = NaN"

text \<open>Rounding to the nearest integer, ties to even.\<close>

definition rne :: "real \<Rightarrow> int" where
  "rne q =
     (let f = \<lfloor>q\<rfloor>; d = q - of_int f
      in if d < 1 / 2 then f else if 1 / 2 < d then f + 1 else if even f then f else f + 1)"

text \<open>For \<open>x > 0\<close>: the exponent of the unit in the last place of the binade of \<open>x\<close> (not
  below that of the subnormal numbers), and \<open>x\<close> rounded to a multiple of that unit.\<close>

definition ulp_exp :: "real \<Rightarrow> int" where
  "ulp_exp x = max (\<lfloor>log 2 x\<rfloor> - 52) (- 1074)"

definition round_val :: "real \<Rightarrow> real" where
  "round_val x = of_int (rne (x / 2 powr of_int (ulp_exp x))) * 2 powr of_int (ulp_exp x)"

definition round_pos :: "real \<Rightarrow> float64" where
  "round_pos x = (if 2 ^ 1024 \<le> round_val x then PosInf else Fin (round_val x))"

definition round64 :: "real \<Rightarrow> float64" where
  "round64 x = (if x = 0 then Fin 0 else if 0 < x then round_pos x else f_neg (round_pos (- x)))"

text \<open>A decimal constant of the source, converted to float64.\<close>

definition f_lit :: "real \<Rightarrow> float64" where
  "f_lit x = round64 x"

fun f_add :: "float64 \<Rightarrow> float64 \<Rightarrow> float64" where
  "f_add NaN _ = NaN"
| "f_add _ NaN = NaN"
| "f_add (Fin x) (Fin y) = round64 (x + y)"
| "f_add (Fin _) PosInf = PosInf"
| "f_add (Fin _) NegInf = NegInf"
| "f_add PosInf NegInf = NaN"
| "f_add PosInf _ = PosInf"
| "f_add NegInf PosInf = NaN"
| "f_add NegInf _ = NegInf"

definition f_sub :: "float64 \<Rightarrow> float64 \<Rightarrow> float64" where
  "f_sub a b = f_add a (f_neg b)"

fun f_sgn_inf :: "real \<Rightarrow> float64 \<Rightarrow> float64" where
  "f_sgn_inf x i = (if 0 < x then i else if x < 0 then f_neg i else NaN)"

fun f_mul :: "float64 \<Rightarrow> float64 \<Rightarrow> float64" where
  "f_mul NaN _ = NaN"
| "f_mul _ NaN = NaN"
| "f_mul (Fin x) (Fin y) = round64 (x * y)"
| "f_mul (Fin x) PosInf = f_sgn_inf x PosInf"
| "f_mul (Fin x) NegInf = f_sgn_inf x NegInf"
| "f_mul PosInf (Fin y) = f_sgn_inf y PosInf"
| "f_mul NegInf (Fin y) = f_sgn_inf y NegInf"
| "f_mul PosInf PosInf = PosInf"
| "f_mul PosInf NegInf = NegInf"
| "f_mul NegInf PosInf = NegInf"
| "f_mul NegInf NegInf = PosInf"

fun f_abs :: "float64 \<Rightarrow> float64" where
  "f_abs (Fin x) = Fin \<bar>x\<bar>"
| "f_abs PosInf = PosInf"
| "f_abs NegInf = PosInf"
| "f_abs NaN = NaN"

text \<open>\<open>math.Log\<close>, a function of the Go library: the natural logarithm, with
  \<open>Log(+Inf) = +Inf\<close>, \<open>Log(0) = -Inf\<close>, and NaN for a negative argument or NaN. For a
  positive finite argument it is taken to return the float64 nearest to the logarithm.\<close>

fun f_log :: "float64 \<Rightarrow> float64" where
  "f_log (Fin x) = (if 0 < x then round64 (ln x) else if x = 0 then NegInf else NaN)"
| "f_log PosInf = PosInf"
| "f_log NegInf = NaN"
| "f_log NaN = NaN"

section \<open>The file \<open>comprehensive_verify.go\<close>\<close>

datatype error = Errorf string

subsection \<open>Probability and Categorical\<close>

definition Validate :: "Probability \<Rightarrow> error option" where
  "Validate p =
     (if f_lt p (Fin 0) \<or> f_gt p (Fin 1)
      then Some (Errorf ''probability must be between 0 and 1'')
      else None)"

record Categorical =
  Probs :: "Probability list"

definition NewCategorical :: "Probability list \<Rightarrow> Categorical" where
  "NewCategorical probs = \<lparr>Probs = probs\<rparr>"

definition Prob :: "Categorical \<Rightarrow> int \<Rightarrow> Probability" where
  "Prob c outcome =
     (if 0 \<le> outcome \<and> outcome < int (length (Probs c))
      then Probs c ! nat outcome
      else Fin 0)"

definition LogProb :: "Categorical \<Rightarrow> int \<Rightarrow> Probability" where
  "LogProb c outcome =
     (let p = Prob c outcome
      in if f_eq p (Fin 0) then Fin (- 1000000000) else f_log p)"

text \<open>The body of the \<open>range\<close> loop of \<open>Entropy\<close>, and the loop as a left fold from
  \<open>h = 0\<close>.\<close>

definition Entropy_step :: "Probability \<Rightarrow> Probability \<Rightarrow> Probability" where
  "Entropy_step h p = (if f_gt p (Fin 0) then f_sub h (f_mul p (f_log p)) else h)"

definition Entropy :: "Categorical \<Rightarrow> Probability" where
  "Entropy c = foldl Entropy_step (Fin 0) (Probs c)"

subsection \<open>Node\<close>

text \<open>A \<open>*Node\<close> made by \<open>NewNode\<close>: its \<open>CPT\<close> is an allocated map. A method that
  mutates the node returns the node it leaves behind.\<close>

record Node =
  Name :: string
  States :: "string list"
  CPT :: "string \<rightharpoonup> Probability list"

definition NewNode :: "string \<Rightarrow> string list \<Rightarrow> Node" where
  "NewNode name states = \<lparr>Name = name, States = states, CPT = Map.empty\<rparr>"

text \<open>The validation loop of \<open>SetCPT\<close>: it returns at the first entry that \<open>Validate\<close>
  rejects, and otherwise yields the accumulated sum.\<close>

fun SetCPT_loop :: "Probability list \<Rightarrow> Probability \<Rightarrow> error + Probability" where
  "SetCPT_loop [] sm = Inr sm"
| "SetCPT_loop (p # ps) sm =
     (case Validate p of
        Some err \<Rightarrow> Inl err
      | None \<Rightarrow> SetCPT_loop ps (f_add sm p))"

definition SetCPT :: "Node \<Rightarrow> string \<Rightarrow> Probability list \<Rightarrow> error option \<times> Node" where
  "SetCPT n parentStates probabilities =
     (if length probabilities \<noteq> length (States n)
      then (Some (Errorf ''probabilities length must match number of states''), n)
      else case SetCPT_loop probabilities (Fin 0) of
             Inl err \<Rightarrow> (Some err, n)
           | Inr sm \<Rightarrow>
               if f_gt (f_abs (f_sub sm (Fin 1))) (f_lit (1 / 1000000))
               then (Some (Errorf ''probabilities must sum to 1''), n)
               else (None, n\<lparr>CPT := (CPT n)(parentStates \<mapsto> probabilities)\<rparr>))"

subsection \<open>WorkingMemory\<close>

datatype panic = SliceBoundsOutOfRange nat nat

record WorkingMemory =
  Capacity :: int
  Contents :: "Probability list list"

definition NewWorkingMemory :: "int \<Rightarrow> WorkingMemory" where
  "NewWorkingMemory capacity = \<lparr>Capacity = capacity, Contents = []\<rparr>"

text \<open>The slice expression \<open>s[1:]\<close>, that is \<open>s[1:len(s)]\<close>: Go panics when the low bound
  exceeds the high one.\<close>

definition slice_from_1 :: "'a list \<Rightarrow> panic + 'a list" where
  "slice_from_1 s = (if 1 > length s then Inl (SliceBoundsOutOfRange 1 (length s)) else Inr (drop 1 s))"

definition AddItem :: "WorkingMemory \<Rightarrow> Probability list \<Rightarrow> panic + (error option \<times> WorkingMemory)" where
  "AddItem wm item =
     (if int (length (Contents wm)) \<ge> Capacity wm
      then (case slice_from_1 (Contents wm) of
              Inl pn \<Rightarrow> Inl pn
            | Inr s \<Rightarrow> Inr (None, wm\<lparr>Contents := s @ [item]\<rparr>))
      else Inr (None, wm\<lparr>Contents := Contents wm @ [item]\<rparr>))"

definition GetContents :: "WorkingMemory \<Rightarrow> Probability list list" where
  "GetContents wm = Contents wm"

text \<open>A sequence of \<open>AddItem\<close> calls on one memory, as the loops of \<open>main\<close> make them: the
  errors the calls returned, in order, and the memory left behind; a panic ends the run.\<close>

fun AddItems :: "WorkingMemory \<Rightarrow> Probability list list \<Rightarrow> panic + (error option list \<times> WorkingMemory)" where
  "AddItems wm [] = Inr ([], wm)"
| "AddItems wm (item # items) =
     (case AddItem wm item of
        Inl pn \<Rightarrow> Inl pn
      | Inr (err, wm') \<Rightarrow>
          (case AddItems wm' items of
             Inl pn \<Rightarrow> Inl pn
           | Inr (errs, wm'') \<Rightarrow> Inr (err # errs, wm'')))"

section \<open>The simple verification script\<close>

text \<open>The script declares its own \<open>Probability\<close>, \<open>Validate\<close>, \<open>Node\<close> (the same struct) and
  \<open>SetCPT\<close>; they are translated from its text, apart from those of
  \<open>comprehensive_verify.go\<close>.\<close>

definition Validate_simple :: "Probability \<Rightarrow> error option" where
  "Validate_simple p =
     (if f_lt p (Fin 0) \<or> f_gt p (Fin 1)
      then Some (Errorf ''probability must be between 0 and 1'')
      else None)"

fun SetCPT_loop_simple :: "Probability list \<Rightarrow> Probability \<Rightarrow> error + Probability" where
  "SetCPT_loop_simple [] sm = Inr sm"
| "SetCPT_loop_simple (p # ps) sm =
     (case Validate_simple p of
        Some err \<Rightarrow> Inl err
      | None \<Rightarrow> SetCPT_loop_simple ps (f_add sm p))"

definition SetCPT_simple :: "Node \<Rightarrow> string \<Rightarrow> Probability list \<Rightarrow> error option \<times> Node" where
  "SetCPT_simple n parentStates probabilities =
     (if length probabilities \<noteq> length (States n)
      then (Some (Errorf ''probabilities length must match number of states''), n)
      else case SetCPT_loop_simple probabilities (Fin 0) of
             Inl err \<Rightarrow> (Some err, n)
           | Inr sm \<Rightarrow>
               if f_gt (f_abs (f_sub sm (Fin 1))) (f_lit (1 / 1000000))
               then (Some (Errorf ''probabilities must sum to 1''), n)
               else (None, n\<lparr>CPT := (CPT n)(parentStates \<mapsto> probabilities)\<rparr>))"

section \<open>The file \<open>verify_examples.go\<close>\<close>

definition SetCPT_examples :: "Node \<Rightarrow> string \<Rightarrow> Probability list \<Rightarrow> error option \<times> Node" where
  "SetCPT_examples n parentStates probabilities =
     (None, n\<lparr>CPT := (CPT n)(parentStates \<mapsto> probabilities)\<rparr>)"

record BayesianNetwork =
  Nodes :: "Node list"

definition NewBayesianNetwork :: BayesianNetwork where
  "NewBayesianNetwork = \<lparr>Nodes = []\<rparr>"

definition AddNode :: "BayesianNetwork \<Rightarrow> Node \<Rightarrow> BayesianNetwork" where
  "AddNode bn node = bn\<lparr>Nodes := Nodes bn @ [node]\<rparr>"

record VariableElimination =
  Network :: BayesianNetwork

definition NewVariableElimination :: "BayesianNetwork \<Rightarrow> VariableElimination" where
  "NewVariableElimination network = \<lparr>Network = network\<rparr>"

text \<open>The body of the loop \<open>for queryVar := range query\<close>. The evidence map is only looked
  up: \<open>v, ok := evidence[k]\<close> is \<open>evidence k\<close>, with \<open>None\<close> for a missing key. The
  posteriors are only stored, never computed with: they are written as the decimal
  constants of the source.\<close>

definition Query_step :: "(string \<rightharpoonup> string) \<Rightarrow> (string \<rightharpoonup> Probability) \<Rightarrow> string \<Rightarrow> (string \<rightharpoonup> Probability)" where
  "Query_step evidence result queryVar =
     (if queryVar = ''Flu''
      then (if (case evidence ''Fever'' of Some fever \<Rightarrow> fever = ''yes'' | None \<Rightarrow> False)
            then (if (case evidence ''Cough'' of Some cough \<Rightarrow> cough = ''yes'' | None \<Rightarrow> False)
                  then result(''yes'' \<mapsto> Fin (32 / 100), ''no'' \<mapsto> Fin (68 / 100))
                  else result(''yes'' \<mapsto> Fin (15 / 100), ''no'' \<mapsto> Fin (85 / 100)))
            else result(''yes'' \<mapsto> Fin (5 / 100), ''no'' \<mapsto> Fin (95 / 100)))
      else result)"

text \<open>The query map is only ranged over, in an order Go does not fix: it is given as the list
  of its entries in the order this run of the loop visits them, so a statement about every
  such list covers every iteration order.\<close>

definition Query :: "VariableElimination \<Rightarrow> (string \<times> string) list \<Rightarrow> (string \<rightharpoonup> string) \<Rightarrow> (string \<rightharpoonup> Probability)" where
  "Query ve query evidence = foldl (Query_step evidence) Map.empty (map fst query)"

section \<open>The comprehensive test runner\<close>

text \<open>\<open>time.Duration\<close> is an \<open>int64\<close> count of nanoseconds.\<close>

type_synonym Duration = "64 word"

record TestResult =
  Module :: string
  Passed :: bool
  Output :: string
  Duration :: Duration

text \<open>What running \<open>gno test <path>\<close> in the tests directory does is outside the program: the
  combined output, the error of \<open>CombinedOutput\<close> (\<open>None\<close> for \<open>nil\<close>) and the time measured
  around it are given by the environment, as a function of the path argument.\<close>

record CommandRun =
  combined_output :: string
  run_err :: "error option"
  elapsed :: Duration

type_synonym Exec = "string \<Rightarrow> CommandRun"

definition runModuleTests :: "Exec \<Rightarrow> string \<Rightarrow> TestResult" where
  "runModuleTests exec module' =
     (let r = exec (''../methods/'' @ module' @ ''/'')
      in \<lparr>Module = module', Passed = (run_err r = None), Output = combined_output r,
          Duration = elapsed r\<rparr>)"

text \<open>What \<open>main\<close> writes to standard output, one value per print statement. A formatted
  line carries its arguments; the fixed text is kept without its pictographs and its
  line breaks.\<close>

datatype printed =
    Println string
  | Printf_Running string
  | Printf_PASSED Duration
  | Printf_FAILED Duration
  | Printf_Total_Modules int
  | Printf_Passed int
  | Printf_Failed int
  | Printf_Success_Rate int int
  | Printf_module_failed string
  | Printf_total_time Duration
  | Printf_modules_failed int

definition modules :: "string list" where
  "modules =
     [''active_inference_core'', ''advanced_probability'', ''bayesian_inference'',
      ''cognitive_modeling'', ''free_energy_principle'', ''reinforcement_learning'',
      ''smart_contracts'', ''visualization'', ''probability'']"

text \<open>The first loop of \<open>main\<close>: the state is the output so far, \<open>results\<close> and
  \<open>passedTests\<close>.\<close>

fun run_loop :: "Exec \<Rightarrow> string list \<Rightarrow> printed list \<times> TestResult list \<times> int \<Rightarrow> printed list \<times> TestResult list \<times> int" where
  "run_loop exec [] st = st"
| "run_loop exec (module' # ms) (out, results, passedTests) =
     (let out1 = out @ [Printf_Running module'];
          result = runModuleTests exec module';
          results1 = results @ [result];
          (passedTests1, out2) =
            (if Passed result
             then (passedTests + 1, out1 @ [Printf_PASSED (Duration result)])
             else (passedTests, out1 @ [Printf_FAILED (Duration result)]));
          out3 = out2 @ [Println (replicate 50 CHR ''-'')]
      in run_loop exec ms (out3, results1, passedTests1))"

text \<open>The loop that prints the details of the failed modules; \<open>failedCount\<close> is threaded.\<close>

fun failed_loop :: "TestResult list \<Rightarrow> printed list \<times> int \<Rightarrow> printed list \<times> int" where
  "failed_loop [] st = st"
| "failed_loop (result # rs) (out, failedCount) =
     (if \<not> Passed result
      then (let out1 = (if failedCount = 0 then out @ [Println ''=== FAILED MODULE DETAILS ==='']
                        else out)
            in failed_loop rs
                 (out1 @ [Printf_module_failed (Module result), Println (Output result)],
                  failedCount + 1))
      else failed_loop rs (out, failedCount))"

text \<open>\<open>main\<close> yields what it printed and the exit status of the process: 1 from
  \<open>os.Exit(1)\<close>, 0 when \<open>main\<close> returns.\<close>

definition main :: "Exec \<Rightarrow> printed list \<times> int" where
  "main exec =
     (let out0 = [Println ''=== Active Inference Comprehensive Test Runner ===''];
          (out1, results, passedTests) = run_loop exec modules (out0, [], 0);
          totalTests = int (length modules);
          out2 = out1 @
            [Println ''=== TEST RESULTS SUMMARY ==='',
             Printf_Total_Modules totalTests,
             Printf_Passed passedTests,
             Printf_Failed (totalTests - passedTests),
             Printf_Success_Rate passedTests totalTests];
          (out3, failedCount) = failed_loop results (out2, 0)
      in if passedTests = totalTests
         then (out3 @
               [Println ''ALL TESTS PASSED!'',
                Println ''Active Inference framework is fully functional!'',
                Println ''All modules are production-ready!'',
                Println ''100% test coverage achieved!'',
                Println ''Ready for deployment on Gno blockchain!''] @
               [Printf_total_time (foldl (+) 0 (map Duration results))], 0)
         else (out3 @ [Printf_modules_failed (totalTests - passedTests)], 1))"




section \<open>Notions used in the statements\<close>

text \<open>\<open>0 \<le> p \<le> 1\<close> with the comparisons of float64: false for NaN and the infinities.\<close>

definition in_unit :: "float64 \<Rightarrow> bool" where
  "in_unit p = (f_le (Fin 0) p \<and> f_le p (Fin 1))"

text \<open>The reals that binary64 represents: a significand below \<open>2 ^ 53\<close> in magnitude and an
  exponent between -1074 and 971.\<close>

definition repr :: "real \<Rightarrow> bool" where
  "repr r = (\<exists>k j. r = real_of_int k * 2 powr real_of_int j \<and> \<bar>k\<bar> < 2 ^ 53 \<and> - 1074 \<le> j \<and> j \<le> 971)"

text \<open>Values that are not negative (a finite value that is at least 0, or \<open>+Inf\<close>), and
  values that are not positive.\<close>

definition f_nonneg :: "float64 \<Rightarrow> bool" where
  "f_nonneg a = (case a of Fin y \<Rightarrow> 0 \<le> y | PosInf \<Rightarrow> True | _ \<Rightarrow> False)"

definition f_nonpos :: "float64 \<Rightarrow> bool" where
  "f_nonpos a = (case a of Fin y \<Rightarrow> y \<le> 0 | NegInf \<Rightarrow> True | _ \<Rightarrow> False)"

text \<open>The float64 sum of a list, accumulated in list order from 0, and the entropy as the
  specification words it: the negative sum of \<open>p * ln p\<close> over the entries that are greater
  than 0, the products and the sum being those of float64.\<close>

definition f_sum :: "float64 list \<Rightarrow> float64" where
  "f_sum xs = foldl f_add (Fin 0) xs"

definition Entropy_spec :: "Categorical \<Rightarrow> Probability" where
  "Entropy_spec c =
     f_neg (f_sum (map (\<lambda>p. f_mul p (f_log p)) (filter (\<lambda>p. f_gt p (Fin 0)) (Probs c))))"

text \<open>A module's test command reports failure when \<open>CombinedOutput\<close> returns an error; the
  pass/fail line \<open>main\<close> prints for a module; the lines that are pass/fail lines.\<close>

definition failed :: "Exec \<Rightarrow> string \<Rightarrow> bool" where
  "failed exec m = (run_err (exec (''../methods/'' @ m @ ''/'')) \<noteq> None)"

definition verdict_line :: "Exec \<Rightarrow> string \<Rightarrow> printed" where
  "verdict_line exec m =
     (if failed exec m
      then Printf_FAILED (elapsed (exec (''../methods/'' @ m @ ''/'')))
      else Printf_PASSED (elapsed (exec (''../methods/'' @ m @ ''/''))))"

fun is_verdict :: "printed \<Rightarrow> bool" where
  "is_verdict (Printf_PASSED _) = True"
| "is_verdict (Printf_FAILED _) = True"
| "is_verdict _ = False"

section \<open>Properties of \<open>VariableElimination.Query\<close>\<close>

lemma Query_step_other:
  "queryVar \<noteq> ''Flu'' \<Longrightarrow> Query_step evidence result queryVar = result"
  by (simp add: Query_step_def)

lemma Query_step_Flu_twice:
  "Query_step evidence (Query_step evidence result ''Flu'') ''Flu'' =
   Query_step evidence result ''Flu''"
  by (simp add: Query_step_def)

lemma Query_foldl:
  "foldl (Query_step evidence) result ks =
     (if ''Flu'' \<in> set ks then Query_step evidence result ''Flu'' else result)"
proof (induction ks arbitrary: result)
  case Nil
  show ?case by simp
next
  case (Cons k ks)
  show ?case
  proof (cases "k = ''Flu''")
    case True
    then show ?thesis by (simp add: Cons.IH Query_step_Flu_twice)
  next
    case False
    then show ?thesis by (simp add: Cons.IH Query_step_other)
  qed
qed

text \<open>
  Claim C1. \<open>Query\<close> returns literal posteriors: when the query map has the key \<open>Flu\<close> the
  result is \<open>{yes: 0.32, no: 0.68}\<close> if the evidence has \<open>Fever = yes\<close> and \<open>Cough = yes\<close>,
  \<open>{yes: 0.15, no: 0.85}\<close> if it has \<open>Fever = yes\<close> but not \<open>Cough = yes\<close>, and the prior
  \<open>{yes: 0.05, no: 0.95}\<close> otherwise; without the key \<open>Flu\<close> the result is the empty map.
  This holds for every order in which the loop visits the keys, and the network (its nodes
  and their CPTs) has no influence: any two \<open>VariableElimination\<close> values give the same
  result.
\<close>

theorem Query_literal_posteriors:
  "Query ve query evidence =
     (if ''Flu'' \<in> fst ` set query
      then (if evidence ''Fever'' = Some ''yes''
            then (if evidence ''Cough'' = Some ''yes''
                  then [''yes'' \<mapsto> Fin (32 / 100), ''no'' \<mapsto> Fin (68 / 100)]
                  else [''yes'' \<mapsto> Fin (15 / 100), ''no'' \<mapsto> Fin (85 / 100)])
            else [''yes'' \<mapsto> Fin (5 / 100), ''no'' \<mapsto> Fin (95 / 100)])
      else Map.empty)
   \<and> Query ve query evidence = Query ve' query evidence"
proof -
  have "Query ve query evidence =
     (if ''Flu'' \<in> fst ` set query then Query_step evidence Map.empty ''Flu'' else Map.empty)"
    by (simp add: Query_def Query_foldl)
  moreover have "Query ve query evidence = Query ve' query evidence"
    by (simp add: Query_def)
  ultimately show ?thesis
    by (simp add: Query_step_def split: option.splits)
qed

section \<open>Properties of \<open>WorkingMemory\<close>\<close>

lemma AddItem_full:
  "1 \<le> Capacity wm \<Longrightarrow> int (length (Contents wm)) \<ge> Capacity wm \<Longrightarrow>
   AddItem wm item = Inr (None, wm\<lparr>Contents := tl (Contents wm) @ [item]\<rparr>)"
  by (cases "Contents wm") (auto simp: AddItem_def slice_from_1_def drop_Suc)

lemma AddItem_not_full:
  "int (length (Contents wm)) < Capacity wm \<Longrightarrow>
   AddItem wm item = Inr (None, wm\<lparr>Contents := Contents wm @ [item]\<rparr>)"
  by (simp add: AddItem_def)

lemma AddItem_empty_panics:
  "Capacity wm \<le> 0 \<Longrightarrow> Contents wm = [] \<Longrightarrow>
   AddItem wm item = Inl (SliceBoundsOutOfRange 1 0)"
  by (simp add: AddItem_def slice_from_1_def)

text \<open>The invariant of a run of \<open>AddItem\<close> calls: from a memory that holds at most
  \<open>Capacity\<close> items, the contents afterwards are the last \<open>Capacity\<close> items of what was held
  followed by what was added.\<close>

lemma AddItems_window:
  "1 \<le> Capacity wm \<Longrightarrow> int (length (Contents wm)) \<le> Capacity wm \<Longrightarrow>
   AddItems wm items =
     Inr (replicate (length items) None,
          wm\<lparr>Contents := drop (length (Contents wm @ items) - nat (Capacity wm)) (Contents wm @ items)\<rparr>)"
proof (induction items arbitrary: wm)
  case Nil
  then show ?case by simp
next
  case (Cons item items)
  show ?case
  proof (cases "int (length (Contents wm)) < Capacity wm")
    case True
    let ?wm1 = "wm\<lparr>Contents := Contents wm @ [item]\<rparr>"
    have step: "AddItem wm item = Inr (None, ?wm1)"
      using True by (rule AddItem_not_full)
    have "1 \<le> Capacity ?wm1" "int (length (Contents ?wm1)) \<le> Capacity ?wm1"
      using Cons.prems True by simp_all
    from Cons.IH [OF this] step show ?thesis by simp
  next
    case False
    with Cons.prems have full: "int (length (Contents wm)) = Capacity wm" by simp
    then obtain x xs where C: "Contents wm = x # xs"
      using Cons.prems by (cases "Contents wm") auto
    let ?wm1 = "wm\<lparr>Contents := tl (Contents wm) @ [item]\<rparr>"
    have step: "AddItem wm item = Inr (None, ?wm1)"
      using Cons.prems full by (intro AddItem_full) simp_all
    have "1 \<le> Capacity ?wm1" "int (length (Contents ?wm1)) \<le> Capacity ?wm1"
      using Cons.prems full C by simp_all
    from Cons.IH [OF this] have
      "AddItems ?wm1 items =
         Inr (replicate (length items) None,
              ?wm1\<lparr>Contents := drop (length (Contents ?wm1 @ items) - nat (Capacity ?wm1)) (Contents ?wm1 @ items)\<rparr>)" .
    moreover have "nat (Capacity wm) = Suc (length xs)"
      using full C by simp
    ultimately show ?thesis
      using step C by simp
  qed
qed

text \<open>
  Claim C4. For a memory made by \<open>NewWorkingMemory c\<close> with \<open>c \<ge> 1\<close> and every sequence of
  \<open>AddItem\<close> calls: no call panics, every call returns \<open>nil\<close>, the memory never holds more
  than \<open>c\<close> items, and after \<open>n\<close> additions it holds exactly the most recent \<open>min n c\<close> items
  in insertion order. (The statement is for every sequence, so for every prefix of one:
  the bound holds after each call.) A call on a full memory drops the oldest item and
  appends the new one.
\<close>

theorem WorkingMemory_fifo:
  assumes "1 \<le> c"
  shows "\<exists>wm'. AddItems (NewWorkingMemory c) items = Inr (replicate (length items) None, wm')
           \<and> Capacity wm' = c
           \<and> int (length (Contents wm')) \<le> c
           \<and> length (Contents wm') = min (length items) (nat c)
           \<and> Contents wm' = drop (length items - min (length items) (nat c)) items
           \<and> (\<forall>wm item. Capacity wm = c \<and> int (length (Contents wm)) \<ge> c \<longrightarrow>
                 AddItem wm item = Inr (None, wm\<lparr>Contents := tl (Contents wm) @ [item]\<rparr>))"
proof -
  let ?wm = "NewWorkingMemory c"
  have "1 \<le> Capacity ?wm" "int (length (Contents ?wm)) \<le> Capacity ?wm"
    using assms by (simp_all add: NewWorkingMemory_def)
  from AddItems_window [OF this, of items]
  have run: "AddItems ?wm items =
      Inr (replicate (length items) None, ?wm\<lparr>Contents := drop (length items - nat c) items\<rparr>)"
    by (simp add: NewWorkingMemory_def)
  have "length items - min (length items) (nat c) = length items - nat c"
    by simp
  moreover have "length (drop (length items - nat c) items) = min (length items) (nat c)"
    by (simp add: min_def)
  moreover have "int (min (length items) (nat c)) \<le> c"
    using assms by linarith
  moreover have "\<forall>wm item. Capacity wm = c \<and> int (length (Contents wm)) \<ge> c \<longrightarrow>
      AddItem wm item = Inr (None, wm\<lparr>Contents := tl (Contents wm) @ [item]\<rparr>)"
    using assms AddItem_full by simp
  ultimately show ?thesis
    using run by (simp add: NewWorkingMemory_def)
qed

theorem WorkingMemory_fifo_witness:
  "(1::int) \<le> 2 \<and>
   AddItems (NewWorkingMemory 2) [[Fin 1], [Fin 2, Fin 3], []] =
     Inr ([None, None, None], \<lparr>Capacity = 2, Contents = [[Fin 2, Fin 3], []]\<rparr>)"
proof -
  have h: "(1::int) \<le> 2" by simp
  show ?thesis
    using h WorkingMemory_fifo [OF h, of "[[Fin 1], [Fin 2, Fin 3], []]"]
    by (simp add: AddItem_def slice_from_1_def NewWorkingMemory_def)
qed

text \<open>
  Claim C9. \<open>AddItem\<close> needs \<open>Capacity \<ge> 1\<close>: on a memory made with capacity 0 or less the
  first call takes the eviction branch, slices the empty \<open>Contents\<close> from index 1 and
  panics; on a memory made with capacity at least 1 no call of any sequence panics, and
  more generally no single call panics on any memory whose capacity is at least 1.
\<close>

theorem AddItem_panics_iff_no_capacity:
  "(c \<le> 0 \<longrightarrow> AddItem (NewWorkingMemory c) item = Inl (SliceBoundsOutOfRange 1 0))
   \<and> (1 \<le> c \<longrightarrow> (\<exists>r. AddItems (NewWorkingMemory c) items = Inr r))
   \<and> (1 \<le> Capacity wm \<longrightarrow> (\<exists>r. AddItem wm item = Inr r))"
proof (intro conjI impI)
  assume "c \<le> 0"
  then show "AddItem (NewWorkingMemory c) item = Inl (SliceBoundsOutOfRange 1 0)"
    by (intro AddItem_empty_panics) (simp_all add: NewWorkingMemory_def)
next
  assume "1 \<le> c"
  then have "1 \<le> Capacity (NewWorkingMemory c)"
    "int (length (Contents (NewWorkingMemory c))) \<le> Capacity (NewWorkingMemory c)"
    by (simp_all add: NewWorkingMemory_def)
  from AddItems_window [OF this, of items]
  show "\<exists>r. AddItems (NewWorkingMemory c) items = Inr r" by blast
next
  assume "1 \<le> Capacity wm"
  then show "\<exists>r. AddItem wm item = Inr r"
    using AddItem_full [of wm item] AddItem_not_full [of wm item]
    by (cases "int (length (Contents wm)) < Capacity wm") auto
qed

theorem AddItem_panics_iff_no_capacity_witness:
  "AddItem (NewWorkingMemory 0) [Fin 1] = Inl (SliceBoundsOutOfRange 1 0)
   \<and> AddItem (NewWorkingMemory (- 3)) [Fin 1] = Inl (SliceBoundsOutOfRange 1 0)
   \<and> (\<exists>r. AddItems (NewWorkingMemory 1) [[Fin 1], [Fin 0]] = Inr r)
   \<and> (\<exists>r. AddItem \<lparr>Capacity = 1, Contents = [[Fin 1], [Fin 0]]\<rparr> [] = Inr r)"
  using AddItem_panics_iff_no_capacity [of 0 "[Fin 1]" "[]" "\<lparr>Capacity = 1, Contents = [[Fin 1], [Fin 0]]\<rparr>"]
    AddItem_panics_iff_no_capacity [of "- 3" "[Fin 1]" "[]" "\<lparr>Capacity = 1, Contents = [[Fin 1], [Fin 0]]\<rparr>"]
    AddItem_panics_iff_no_capacity [of 1 "[]" "[[Fin 1], [Fin 0]]" "\<lparr>Capacity = 1, Contents = [[Fin 1], [Fin 0]]\<rparr>"]
  by simp

section \<open>Properties of rounding\<close>

lemma f_neg_f_neg: "f_neg (f_neg a) = a"
  by (cases a) simp_all

lemma round64_minus: "round64 (- x) = f_neg (round64 x)"
  by (simp add: round64_def f_neg_f_neg)

lemma rne_ge: "real_of_int n \<le> q \<Longrightarrow> n \<le> rne q"
proof -
  assume "real_of_int n \<le> q"
  then have "n \<le> \<lfloor>q\<rfloor>" by (simp add: le_floor_iff)
  then show ?thesis by (auto simp: rne_def Let_def)
qed

lemma rne_le: "q \<le> real_of_int n \<Longrightarrow> rne q \<le> n"
proof -
  assume q: "q \<le> real_of_int n"
  show ?thesis
  proof (cases "q = real_of_int n")
    case True
    then show ?thesis by (simp add: rne_def)
  next
    case False
    with q have "q < real_of_int n" by simp
    then have "\<lfloor>q\<rfloor> < n" by (simp add: floor_less_iff)
    then show ?thesis by (auto simp: rne_def Let_def)
  qed
qed

lemma rne_nonneg: "0 \<le> q \<Longrightarrow> 0 \<le> rne q"
  using rne_ge [of 0 q] by simp

lemma pow2_int: "0 \<le> m \<Longrightarrow> (2::real) powr real_of_int m = real_of_int (2 ^ nat m)"
proof -
  assume "0 \<le> m"
  then have "(2::real) powr real_of_int m = 2 powr real (nat m)" by simp
  also have "\<dots> = 2 ^ nat m" by (rule powr_realpow) simp
  finally show ?thesis by simp
qed

lemma pow2_floor_log_le: "0 < x \<Longrightarrow> 2 powr real_of_int \<lfloor>log 2 x\<rfloor> \<le> x"
proof -
  assume x: "0 < x"
  have "\<lfloor>log 2 x\<rfloor> = \<lfloor>log 2 x\<rfloor>" ..
  with floor_log_eq_powr_iff [of x 2 "\<lfloor>log 2 x\<rfloor>"] x show ?thesis by simp
qed

text \<open>A representable number, scaled to a unit that is not above its own, is an integer.\<close>

lemma scaled_int:
  assumes "e \<le> j"
  shows "real_of_int k * 2 powr real_of_int j / 2 powr real_of_int e =
         real_of_int (k * 2 ^ nat (j - e))"
proof -
  have "(2::real) powr real_of_int j = 2 powr real_of_int (j - e) * 2 powr real_of_int e"
    by (simp add: powr_add [symmetric])
  moreover have "(2::real) powr real_of_int (j - e) = real_of_int (2 ^ nat (j - e))"
    using assms by (intro pow2_int) simp
  ultimately show ?thesis by simp
qed

lemma unscale:
  assumes "e \<le> j"
  shows "real_of_int (k * 2 ^ nat (j - e)) * 2 powr real_of_int e =
         real_of_int k * 2 powr real_of_int j"
proof -
  have "real_of_int (k * 2 ^ nat (j - e)) * 2 powr real_of_int e =
        (real_of_int k * 2 powr real_of_int j / 2 powr real_of_int e) * 2 powr real_of_int e"
    by (simp only: scaled_int [OF assms])
  also have "\<dots> = real_of_int k * 2 powr real_of_int j" by simp
  finally show ?thesis .
qed

text \<open>Above the subnormal range the binade of \<open>x\<close> starts at \<open>2 ^ (ulp_exp x + 52)\<close>, and
  rounding does not leave the binade downwards.\<close>

lemma binade_start:
  assumes x: "0 < x" and nc: "- 1074 < ulp_exp x"
  shows "2 powr real_of_int (ulp_exp x + 52) \<le> x"
    and "2 powr real_of_int (ulp_exp x + 52) \<le> round_val x"
proof -
  from nc have e: "ulp_exp x = \<lfloor>log 2 x\<rfloor> - 52"
    by (simp add: ulp_exp_def max_def split: if_splits)
  then show le: "2 powr real_of_int (ulp_exp x + 52) \<le> x"
    using pow2_floor_log_le [OF x] by simp
  have "(2::real) powr (52 + real_of_int (ulp_exp x)) = 2 powr 52 * 2 powr real_of_int (ulp_exp x)"
    by (rule powr_add)
  moreover have "(2::real) powr 52 = real_of_int (2 ^ 52)" by simp
  moreover have "real_of_int (ulp_exp x + 52) = 52 + real_of_int (ulp_exp x)" by simp
  ultimately have s: "2 powr real_of_int (ulp_exp x + 52) =
      real_of_int (2 ^ 52) * 2 powr real_of_int (ulp_exp x)"
    by (simp only:)
  with le have "real_of_int (2 ^ 52) * 2 powr real_of_int (ulp_exp x) \<le> x" by simp
  then have "real_of_int (2 ^ 52) \<le> x / 2 powr real_of_int (ulp_exp x)"
    by (simp add: pos_le_divide_eq)
  then have "2 ^ 52 \<le> rne (x / 2 powr real_of_int (ulp_exp x))" by (rule rne_ge)
  then have "real_of_int (2 ^ 52) \<le> real_of_int (rne (x / 2 powr real_of_int (ulp_exp x)))"
    by (simp only: of_int_le_iff)
  then have "real_of_int (2 ^ 52) * 2 powr real_of_int (ulp_exp x) \<le> round_val x"
    unfolding round_val_def by (intro mult_right_mono) simp_all
  with s show "2 powr real_of_int (ulp_exp x + 52) \<le> round_val x" by simp
qed

lemma repr_below_binade:
  assumes k: "\<bar>k\<bar> < 2 ^ 53" and j: "j < e"
  shows "real_of_int k * 2 powr real_of_int j < 2 powr real_of_int (e + 52)"
proof -
  have "real_of_int k * 2 powr real_of_int j < (2::real) ^ 53 * 2 powr real_of_int j"
  proof (intro mult_strict_right_mono)
    from k have "k < 2 ^ 53" by simp
    then have "real_of_int k < real_of_int (2 ^ 53)" by (simp only: of_int_less_iff)
    then show "real_of_int k < 2 ^ 53" by simp
  qed simp
  also have "\<dots> = 2 powr real_of_int (j + 53)"
  proof -
    have "(2::real) powr (53 + real_of_int j) = 2 powr 53 * 2 powr real_of_int j"
      by (rule powr_add)
    moreover have "(2::real) powr 53 = 2 ^ 53" by simp
    moreover have "real_of_int (j + 53) = 53 + real_of_int j" by simp
    ultimately show ?thesis by (simp only:)
  qed
  also have "\<dots> \<le> 2 powr real_of_int (e + 52)"
    using j by (intro powr_mono) simp_all
  finally show ?thesis .
qed

text \<open>Rounding never crosses a representable number.\<close>

lemma round_val_le:
  assumes x: "0 < x" and xr: "x \<le> real_of_int k * 2 powr real_of_int j"
    and k: "\<bar>k\<bar> < 2 ^ 53" and j: "- 1074 \<le> j"
  shows "round_val x \<le> real_of_int k * 2 powr real_of_int j"
proof (cases "ulp_exp x \<le> j")
  case True
  let ?n = "k * 2 ^ nat (j - ulp_exp x)"
  have "x / 2 powr real_of_int (ulp_exp x) \<le>
        real_of_int k * 2 powr real_of_int j / 2 powr real_of_int (ulp_exp x)"
    using xr by (simp add: divide_right_mono)
  then have "x / 2 powr real_of_int (ulp_exp x) \<le> real_of_int ?n"
    by (simp only: scaled_int [OF True])
  then have "rne (x / 2 powr real_of_int (ulp_exp x)) \<le> ?n" by (rule rne_le)
  then have "real_of_int (rne (x / 2 powr real_of_int (ulp_exp x))) \<le> real_of_int ?n"
    by (simp only: of_int_le_iff)
  then have "round_val x \<le> real_of_int ?n * 2 powr real_of_int (ulp_exp x)"
    unfolding round_val_def by (intro mult_right_mono) simp_all
  then show ?thesis
    by (simp only: unscale [OF True])
next
  case False
  then have lt: "j < ulp_exp x" by simp
  with j have "- 1074 < ulp_exp x" by simp
  from binade_start(1) [OF x this] repr_below_binade [OF k lt] xr
  show ?thesis by simp
qed

lemma round_val_ge:
  assumes x: "0 < x" and xr: "real_of_int k * 2 powr real_of_int j \<le> x"
    and k: "\<bar>k\<bar> < 2 ^ 53" and j: "- 1074 \<le> j"
  shows "real_of_int k * 2 powr real_of_int j \<le> round_val x"
proof (cases "ulp_exp x \<le> j")
  case True
  let ?n = "k * 2 ^ nat (j - ulp_exp x)"
  have "real_of_int k * 2 powr real_of_int j / 2 powr real_of_int (ulp_exp x) \<le>
        x / 2 powr real_of_int (ulp_exp x)"
    using xr by (simp add: divide_right_mono)
  then have "real_of_int ?n \<le> x / 2 powr real_of_int (ulp_exp x)"
    by (simp only: scaled_int [OF True])
  then have "?n \<le> rne (x / 2 powr real_of_int (ulp_exp x))" by (rule rne_ge)
  then have "real_of_int ?n \<le> real_of_int (rne (x / 2 powr real_of_int (ulp_exp x)))"
    by (simp only: of_int_le_iff)
  then have "real_of_int ?n * 2 powr real_of_int (ulp_exp x) \<le> round_val x"
    unfolding round_val_def by (intro mult_right_mono) simp_all
  then show ?thesis
    by (simp only: unscale [OF True])
next
  case False
  then have lt: "j < ulp_exp x" by simp
  with j have "- 1074 < ulp_exp x" by simp
  from binade_start(2) [OF x this] repr_below_binade [OF k lt]
  show ?thesis by simp
qed

lemma round_val_nonneg: "0 < x \<Longrightarrow> 0 \<le> round_val x"
  unfolding round_val_def by (intro mult_nonneg_nonneg) (simp_all add: rne_nonneg)

lemma repr_lt_max:
  assumes k: "\<bar>k\<bar> < 2 ^ 53" and j: "j \<le> 971"
  shows "real_of_int k * 2 powr real_of_int j < 2 ^ 1024"
proof -
  have "j < 972" using j by simp
  from repr_below_binade [OF k this]
  have "real_of_int k * 2 powr real_of_int j < 2 powr real_of_int (972 + 52)" .
  also have "2 powr real_of_int (972 + 52) = (2::real) ^ 1024" by simp
  finally show ?thesis .
qed

lemma reprD:
  assumes "repr r"
  obtains k j where "r = real_of_int k * 2 powr real_of_int j" "\<bar>k\<bar> < 2 ^ 53"
    "- 1074 \<le> j" "j \<le> 971"
  using assms unfolding repr_def by blast

lemma repr_minus: "repr r \<Longrightarrow> repr (- r)"
proof -
  assume "repr r"
  then obtain k j where "r = real_of_int k * 2 powr real_of_int j" "\<bar>k\<bar> < 2 ^ 53"
    "- 1074 \<le> j" "j \<le> 971"
    by (rule reprD)
  then have "- r = real_of_int (- k) * 2 powr real_of_int j \<and> \<bar>- k\<bar> < 2 ^ 53
      \<and> - 1074 \<le> j \<and> j \<le> 971"
    by simp
  then show ?thesis unfolding repr_def by blast
qed

lemma repr_int: "\<bar>k\<bar> < 2 ^ 53 \<Longrightarrow> repr (real_of_int k)"
  unfolding repr_def by (intro exI [of _ k] exI [of _ 0]) simp

lemma repr_dyadic: "\<bar>k\<bar> < 2 ^ 53 \<Longrightarrow> n \<le> 1074 \<Longrightarrow> repr (real_of_int k / 2 ^ n)"
proof -
  assume k: "\<bar>k\<bar> < 2 ^ 53" and n: "n \<le> 1074"
  have "(2::real) powr real_of_int (- int n) = inverse (2 powr real n)"
    by (simp add: powr_minus)
  also have "\<dots> = inverse (2 ^ n)" by (simp add: powr_realpow)
  finally have "real_of_int k / 2 ^ n = real_of_int k * 2 powr real_of_int (- int n)"
    by (simp add: divide_inverse)
  with k n show ?thesis
    unfolding repr_def by (intro exI [of _ k] exI [of _ "- int n"]) simp
qed

lemma round_pos_between:
  assumes x: "0 < x" and lo: "lo \<le> x" and hi: "x \<le> hi" and rlo: "repr lo" and rhi: "repr hi"
  shows "round_pos x = Fin (round_val x) \<and> lo \<le> round_val x \<and> round_val x \<le> hi"
proof -
  from rhi obtain k j where h: "hi = real_of_int k * 2 powr real_of_int j" "\<bar>k\<bar> < 2 ^ 53"
    "- 1074 \<le> j" "j \<le> 971"
    by (rule reprD)
  from round_val_le [OF x _ h(2) h(3)] hi h(1) have up: "round_val x \<le> hi" by simp
  also from repr_lt_max [OF h(2) h(4)] h(1) have "hi < 2 ^ 1024" by simp
  finally have fin: "round_pos x = Fin (round_val x)" by (simp add: round_pos_def)
  have "lo \<le> round_val x"
  proof (cases "lo \<le> 0")
    case True
    with round_val_nonneg [OF x] show ?thesis by simp
  next
    case False
    from rlo obtain k' j' where l: "lo = real_of_int k' * 2 powr real_of_int j'"
      "\<bar>k'\<bar> < 2 ^ 53" "- 1074 \<le> j'" "j' \<le> 971"
      by (rule reprD)
    from round_val_ge [OF x _ l(2) l(3)] lo l(1) show ?thesis by simp
  qed
  with fin up show ?thesis by simp
qed

text \<open>The result of rounding lies between any two representable numbers that enclose the
  argument; a representable number rounds to itself.\<close>

lemma round64_between:
  assumes lo: "lo \<le> x" and hi: "x \<le> hi" and rlo: "repr lo" and rhi: "repr hi"
  shows "\<exists>y. round64 x = Fin y \<and> lo \<le> y \<and> y \<le> hi"
proof -
  consider "x = 0" | "0 < x" | "x < 0" by linarith
  then show ?thesis
  proof cases
    case 1
    with lo hi show ?thesis by (simp add: round64_def)
  next
    case 2
    from round_pos_between [OF 2 lo hi rlo rhi] 2 show ?thesis
      by (simp add: round64_def)
  next
    case 3
    then have p: "0 < - x" by simp
    from lo hi have "- hi \<le> - x" "- x \<le> - lo" by simp_all
    from round_pos_between [OF p this repr_minus [OF rhi] repr_minus [OF rlo]] 3
    show ?thesis by (simp add: round64_def)
  qed
qed

lemma round64_repr: "repr r \<Longrightarrow> round64 r = Fin r"
  using round64_between [of r r r] by auto

lemma round64_nonneg: "0 \<le> x \<Longrightarrow> f_nonneg (round64 x)"
  using round_val_nonneg [of x] by (simp add: round64_def round_pos_def f_nonneg_def)

lemma round64_nonpos: "x \<le> 0 \<Longrightarrow> f_nonpos (round64 x)"
proof -
  assume "x \<le> 0"
  then have "0 \<le> - x" by simp
  from round64_nonneg [OF this] show ?thesis
    by (cases "round64 x") (simp_all add: round64_minus f_nonneg_def f_nonpos_def)
qed

lemma round_pos_overflow:
  assumes "2 ^ 1024 \<le> x"
  shows "round_pos x = PosInf"
proof -
  have "(0::real) < 2 ^ 1024" by simp
  with assms have x: "0 < x" by linarith
  have "(2::real) powr real_of_int 1024 \<le> x" using assms by simp
  then have "1024 \<le> \<lfloor>log 2 x\<rfloor>"
    using x by (simp add: le_floor_iff le_log_iff)
  then have e: "972 \<le> ulp_exp x" by (simp add: ulp_exp_def)
  then have "- 1074 < ulp_exp x" by simp
  from binade_start(2) [OF x this]
  have "2 powr real_of_int (ulp_exp x + 52) \<le> round_val x" .
  moreover have "(2::real) powr real_of_int 1024 \<le> 2 powr real_of_int (ulp_exp x + 52)"
    using e by (intro powr_mono) simp_all
  ultimately have "2 ^ 1024 \<le> round_val x" by simp
  then show ?thesis by (simp add: round_pos_def)
qed

lemma round64_pos: "0 < x \<Longrightarrow> round64 x = round_pos x"
  by (simp add: round64_def)

lemma round64_ge:
  assumes lo: "lo \<le> x" and pos: "0 < lo" and rlo: "repr lo"
  shows "round64 x = PosInf \<or> (\<exists>y. round64 x = Fin y \<and> lo \<le> y)"
proof -
  from lo pos have x: "0 < x" by simp
  from rlo obtain k j where l: "lo = real_of_int k * 2 powr real_of_int j"
    "\<bar>k\<bar> < 2 ^ 53" "- 1074 \<le> j" "j \<le> 971"
    by (rule reprD)
  from round_val_ge [OF x _ l(2) l(3)] lo l(1) have "lo \<le> round_val x" by simp
  then show ?thesis
    by (simp add: round64_pos [OF x] round_pos_def)
qed

section \<open>Properties of \<open>Categorical.Entropy\<close>\<close>

text \<open>Negation commutes with float64 addition: rounding is symmetric.\<close>

lemma f_add_f_neg: "f_add (f_neg a) (f_neg b) = f_neg (f_add a b)"
proof (cases a; cases b)
  fix x y assume "a = Fin x" "b = Fin y"
  moreover have "- x + - y = - (x + y)" by simp
  ultimately show ?thesis by (simp only: f_neg.simps f_add.simps round64_minus)
qed simp_all

lemma f_sub_f_neg: "f_sub (f_neg s) t = f_neg (f_add s t)"
  by (simp add: f_sub_def f_add_f_neg)

lemma Entropy_step_pos:
  "f_gt p (Fin 0) \<Longrightarrow> Entropy_step h p = f_sub h (f_mul p (f_log p))"
  by (simp add: Entropy_step_def)

lemma Entropy_step_skip:
  "\<not> f_gt p (Fin 0) \<Longrightarrow> Entropy_step h p = h"
  by (simp add: Entropy_step_def)

lemma Entropy_foldl:
  "foldl Entropy_step (f_neg s) ps =
     f_neg (foldl f_add s (map (\<lambda>p. f_mul p (f_log p)) (filter (\<lambda>p. f_gt p (Fin 0)) ps)))"
proof (induction ps arbitrary: s)
  case Nil
  show ?case by simp
next
  case (Cons p ps)
  show ?case
  proof (cases "f_gt p (Fin 0)")
    case True
    then have "Entropy_step (f_neg s) p = f_neg (f_add s (f_mul p (f_log p)))"
      by (simp add: Entropy_step_pos f_sub_f_neg)
    with Cons.IH [of "f_add s (f_mul p (f_log p))"] True show ?thesis by simp
  next
    case False
    then have "Entropy_step (f_neg s) p = f_neg s"
      by (rule Entropy_step_skip)
    with Cons.IH [of s] False show ?thesis by simp
  qed
qed

text \<open>
  Claim C5, as amended. \<open>Entropy\<close> is the negative sum of \<open>p * Log p\<close> over exactly the
  entries of \<open>Probs\<close> that are greater than 0: zero, negative and NaN entries contribute
  nothing. The products and the sum are those of float64, taken in list order: each is
  rounded, and one that leaves the float64 range is infinite.
\<close>

theorem Entropy_negative_sum:
  "Entropy c = Entropy_spec c"
proof -
  have "Entropy c = foldl Entropy_step (f_neg (Fin 0)) (Probs c)"
    by (simp add: Entropy_def)
  then show ?thesis
    by (simp only: Entropy_foldl Entropy_spec_def f_sum_def)
qed

text \<open>Two runs of \<open>Entropy\<close>. Entries that are not greater than 0 are skipped; and a product
  that leaves the float64 range makes the entropy \<open>-Inf\<close>.\<close>

lemma Entropy_skips:
  "Entropy (NewCategorical [Fin 0, Fin (- 1), NaN, NegInf]) = Fin 0"
  by (simp add: Entropy_def NewCategorical_def Entropy_step_def f_gt_def)

lemma ln_9_ge_2: "2 \<le> ln (9::real)"
proof -
  have "1 \<le> ln (3::real)"
    using exp_le by (simp add: ln_ge_iff)
  moreover have "ln (9::real) = 2 * ln 3"
    using ln_realpow [of 3 2] by simp
  ultimately show ?thesis by simp
qed

lemma Entropy_overflow_from:
  assumes big: "2 ^ 1023 \<le> x"
  shows "Entropy (NewCategorical [Fin x]) = NegInf"
proof -
  have "(9::real) \<le> 2 ^ 4" by simp
  also have "(2::real) ^ 4 \<le> 2 ^ 1023" by (rule power_increasing) simp_all
  also note big
  finally have x9: "9 \<le> x" .
  then have x0: "0 < x" by simp
  have "ln (9::real) \<le> ln x" using x9 by (subst ln_le_cancel_iff) simp_all
  with ln_9_ge_2 have lo: "2 \<le> ln x" by (rule order_trans)
  have r2: "repr 2" using repr_int [of 2] by simp
  have "f_mul (Fin x) (round64 (ln x)) = PosInf"
  proof -
    from round64_ge [OF lo _ r2]
    consider "round64 (ln x) = PosInf" | l where "round64 (ln x) = Fin l" "2 \<le> l"
      by auto
    then show ?thesis
    proof cases
      case 1
      with x0 show ?thesis by simp
    next
      case 2
      have "(2::real) ^ 1024 = 2 ^ 1023 * 2" by (simp only: power_Suc2 [symmetric]) simp
      also have "\<dots> \<le> x * 2" using big by simp
      also have "\<dots> \<le> x * l" using 2(2) x0 by (intro mult_left_mono) simp_all
      finally have over: "(2::real) ^ 1024 \<le> x * l" .
      have "0 < x * l" using 2(2) x0 by (intro mult_pos_pos) simp_all
      from round64_pos [OF this] round_pos_overflow [OF over] 2(1)
      show ?thesis by simp
    qed
  qed
  with x0 show ?thesis
    by (simp add: Entropy_def NewCategorical_def Entropy_step_def f_gt_def f_sub_def)
qed

lemma Entropy_overflow: "Entropy (NewCategorical [Fin (2 ^ 1023)]) = NegInf"
  by (rule Entropy_overflow_from [OF order_refl])

text \<open>
  Claim C5 as stated, with the sum of the real numbers \<open>p * ln p\<close>, fails: for the single
  entry \<open>2 ^ 1023\<close> that sum is a real number, and \<open>Entropy\<close> returns \<open>-Inf\<close>, because the
  product \<open>p * Log p\<close> is above every finite float64.
\<close>

theorem Entropy_not_the_real_sum:
  "Entropy (NewCategorical [Fin (2 ^ 1023)]) = NegInf
   \<and> Entropy (NewCategorical [Fin (2 ^ 1023)]) \<noteq> Fin (- (2 ^ 1023 * ln (2 ^ 1023)))"
  by (simp only: Entropy_overflow float64.distinct not_False_eq_True simp_thms)

section \<open>Properties of \<open>Probability\<close> values\<close>

lemma in_unit_Fin: "in_unit p = (\<exists>x. p = Fin x \<and> 0 \<le> x \<and> x \<le> 1)"
  by (cases p) (auto simp: in_unit_def f_le_def)

lemma Validate_in_unit: "in_unit p \<Longrightarrow> Validate p = None"
  by (auto simp: in_unit_Fin Validate_def f_gt_def)

lemma Validate_outside: "f_lt p (Fin 0) \<or> f_gt p (Fin 1) \<Longrightarrow> Validate p \<noteq> None"
  by (simp add: Validate_def)

lemma Validate_None_iff: "p \<noteq> NaN \<Longrightarrow> Validate p = None \<longleftrightarrow> in_unit p"
  by (cases p) (auto simp: in_unit_def f_le_def Validate_def f_gt_def)

lemma Prob_cases: "Prob c outcome = Fin 0 \<or> Prob c outcome \<in> set (Probs c)"
proof (cases "0 \<le> outcome \<and> outcome < int (length (Probs c))")
  case True
  then have "nat outcome < length (Probs c)" by linarith
  then have "Probs c ! nat outcome \<in> set (Probs c)" by (rule nth_mem)
  with True show ?thesis by (simp add: Prob_def)
next
  case False
  then have "Prob c outcome = Fin 0"
    unfolding Prob_def by (rule if_not_P)
  then show ?thesis by simp
qed

lemma Prob_in_unit:
  "\<forall>q\<in>set (Probs c). in_unit q \<Longrightarrow> in_unit (Prob c outcome)"
  using Prob_cases [of c outcome] by (auto simp: in_unit_Fin)

lemma f_nonpos_le_zero: "f_nonpos a \<Longrightarrow> f_le a (Fin 0)"
  by (cases a) (auto simp: f_nonpos_def f_le_def)

lemma f_nonneg_ge_zero: "f_nonneg a \<Longrightarrow> f_le (Fin 0) a"
  by (cases a) (auto simp: f_nonneg_def f_le_def)

lemma f_log_nonpos: "0 < x \<Longrightarrow> x \<le> 1 \<Longrightarrow> f_nonpos (f_log (Fin x))"
  using round64_nonpos [of "ln x"] by simp

lemma LogProb_le_zero:
  assumes "\<forall>q\<in>set (Probs c). in_unit q"
  shows "f_le (LogProb c outcome) (Fin 0)"
proof -
  from Prob_in_unit [OF assms] obtain x where
    x: "Prob c outcome = Fin x" "0 \<le> x" "x \<le> 1"
    by (auto simp: in_unit_Fin)
  show ?thesis
  proof (cases "x = 0")
    case True
    with x show ?thesis by (simp add: LogProb_def f_le_def)
  next
    case False
    with x have "0 < x" by simp
    from f_log_nonpos [OF this x(3)] have "f_le (f_log (Fin x)) (Fin 0)"
      by (rule f_nonpos_le_zero)
    with x False show ?thesis
      by (simp add: LogProb_def)
  qed
qed

lemma f_mul_nonpos: "0 < x \<Longrightarrow> f_nonpos a \<Longrightarrow> f_nonpos (f_mul (Fin x) a)"
proof (cases a)
  case (Fin l)
  assume "0 < x" "f_nonpos a"
  with Fin have "x * l \<le> 0" by (simp add: f_nonpos_def mult_le_0_iff)
  with Fin show ?thesis by (simp add: round64_nonpos)
qed (simp_all add: f_nonpos_def)

lemma f_sub_nonneg: "f_nonneg h \<Longrightarrow> f_nonpos t \<Longrightarrow> f_nonneg (f_sub h t)"
proof (cases h; cases t)
  fix a b assume "h = Fin a" "t = Fin b" "f_nonneg h" "f_nonpos t"
  then show ?thesis
    by (simp add: f_sub_def f_nonneg_def f_nonpos_def round64_nonneg [unfolded f_nonneg_def])
qed (simp_all add: f_sub_def f_nonneg_def f_nonpos_def)

lemma Entropy_step_nonneg:
  assumes "in_unit q" "f_nonneg h"
  shows "f_nonneg (Entropy_step h q)"
proof -
  from assms obtain x where x: "q = Fin x" "0 \<le> x" "x \<le> 1"
    by (auto simp: in_unit_Fin)
  show ?thesis
  proof (cases "0 < x")
    case True
    from f_mul_nonpos [OF True f_log_nonpos [OF True x(3)]]
    have "f_nonpos (f_mul (Fin x) (f_log (Fin x)))" .
    from f_sub_nonneg [OF assms(2) this] x True show ?thesis
      by (simp add: Entropy_step_def f_gt_def)
  next
    case False
    with x assms(2) show ?thesis
      by (simp add: Entropy_step_def f_gt_def)
  qed
qed

lemma Entropy_foldl_nonneg:
  "\<forall>q\<in>set ps. in_unit q \<Longrightarrow> f_nonneg h \<Longrightarrow> f_nonneg (foldl Entropy_step h ps)"
proof (induction ps arbitrary: h)
  case Nil
  then show ?case by simp
next
  case (Cons p ps)
  then have "f_nonneg (Entropy_step h p)"
    by (intro Entropy_step_nonneg) simp_all
  with Cons show ?case by simp
qed

lemma Entropy_nonneg:
  "\<forall>q\<in>set (Probs c). in_unit q \<Longrightarrow> f_le (Fin 0) (Entropy c)"
  unfolding Entropy_def
  by (intro f_nonneg_ge_zero Entropy_foldl_nonneg) (simp_all add: f_nonneg_def)

text \<open>
  Claim C3, as amended. \<open>Validate\<close> returns \<open>nil\<close> for every \<open>p\<close> with \<open>0 \<le> p \<le> 1\<close> and an
  error for every \<open>p < 0\<close> and every \<open>p > 1\<close>. The type does not bound what the operations
  return: when every entry of \<open>Probs\<close> lies in \<open>[0,1]\<close>, \<open>Prob\<close> returns a value in \<open>[0,1]\<close>
  (an entry, or 0 for an outcome out of range), \<open>LogProb\<close> returns a value \<open>\<le> 0\<close> and
  \<open>Entropy\<close> a value \<open>\<ge> 0\<close>.
\<close>

theorem Probability_bounds:
  "(in_unit p \<longrightarrow> Validate p = None)
   \<and> (f_lt p (Fin 0) \<or> f_gt p (Fin 1) \<longrightarrow> Validate p \<noteq> None)
   \<and> ((\<forall>q\<in>set (Probs c). in_unit q) \<longrightarrow>
        in_unit (Prob c outcome)
        \<and> f_le (LogProb c outcome) (Fin 0)
        \<and> f_le (Fin 0) (Entropy c))"
  using Validate_in_unit Validate_outside Prob_in_unit LogProb_le_zero Entropy_nonneg
  by blast

theorem Probability_bounds_witness:
  "Validate (Fin (1 / 2)) = None
   \<and> Validate (Fin 2) \<noteq> None
   \<and> in_unit (Prob (NewCategorical [Fin (1 / 2), Fin (1 / 2)]) 0)
   \<and> f_le (LogProb (NewCategorical [Fin (1 / 2), Fin (1 / 2)]) 0) (Fin 0)
   \<and> f_le (Fin 0) (Entropy (NewCategorical [Fin (1 / 2), Fin (1 / 2)]))"
  using Probability_bounds [of "Fin (1 / 2)" "NewCategorical [Fin (1 / 2), Fin (1 / 2)]" 0]
    Probability_bounds [of "Fin 2" "NewCategorical [Fin (1 / 2), Fin (1 / 2)]" 0]
  by (simp add: in_unit_def f_le_def f_gt_def NewCategorical_def)

lemma ln_quarter_bounds: "- 2 \<le> ln (1 / 4 :: real)" "ln (1 / 4 :: real) \<le> - (5 / 4)"
proof -
  have q: "ln (1 / 4 :: real) = - ln 4" by (simp add: ln_div)
  have "ln (4::real) = 2 * ln 2"
    using ln_realpow [of 2 2] by simp
  moreover have "ln (2::real) \<le> 1"
    using ln_le_minus_one [of 2] by simp
  ultimately have "ln (4::real) \<le> 2" by simp
  with q show "- 2 \<le> ln (1 / 4 :: real)" by simp
  have "exp (5 / 4 :: real) ^ 4 = exp (of_nat 4 * (5 / 4))"
    by (rule exp_of_nat_mult [symmetric])
  also have "\<dots> = exp (of_nat 5 * 1)" by simp
  also have "\<dots> = exp (1::real) ^ 5" by (rule exp_of_nat_mult)
  also have "\<dots> \<le> 3 ^ 5" using exp_le by (intro power_mono) simp_all
  also have "\<dots> \<le> (4::real) ^ 4" by simp
  finally have "exp (5 / 4 :: real) ^ Suc 3 \<le> 4 ^ Suc 3" by simp
  then have "exp (5 / 4 :: real) \<le> 4" by (rule power_le_imp_le_base) simp
  then have "5 / 4 \<le> ln (4::real)" by (subst ln_ge_iff) simp_all
  with q show "ln (1 / 4 :: real) \<le> - (5 / 4)" by simp
qed

lemma quarter_term:
  "\<exists>t. f_mul (Fin (1 / 4)) (f_log (Fin (1 / 4))) = Fin t \<and> - (1 / 2) \<le> t \<and> t \<le> - (5 / 16)"
proof -
  have "repr (- 2)" "repr (- (5 / 4))"
    using repr_int [of "- 2"] repr_dyadic [of "- 5" 2] by simp_all
  from round64_between [OF ln_quarter_bounds this]
  obtain l where l: "round64 (ln (1 / 4)) = Fin l" "- 2 \<le> l" "l \<le> - (5 / 4)" by blast
  have "repr (- (1 / 2))" "repr (- (5 / 16))"
    using repr_dyadic [of "- 1" 1] repr_dyadic [of "- 5" 4] by simp_all
  moreover from l have "- (1 / 2) \<le> 1 / 4 * l" "1 / 4 * l \<le> - (5 / 16)" by simp_all
  ultimately obtain t where "round64 (1 / 4 * l) = Fin t" "- (1 / 2) \<le> t" "t \<le> - (5 / 16)"
    using round64_between [of "- (1 / 2)" "1 / 4 * l" "- (5 / 16)"] by blast
  with l(1) show ?thesis by simp
qed

lemma quarter_step:
  assumes "lo \<le> h" "h \<le> hi" "repr (lo + 5 / 16)" "repr (hi + 1 / 2)"
  shows "\<exists>h'. Entropy_step (Fin h) (Fin (1 / 4)) = Fin h' \<and> lo + 5 / 16 \<le> h' \<and> h' \<le> hi + 1 / 2"
proof -
  from quarter_term obtain t where
    t: "f_mul (Fin (1 / 4)) (f_log (Fin (1 / 4))) = Fin t" "- (1 / 2) \<le> t" "t \<le> - (5 / 16)"
    by blast
  have "Entropy_step (Fin h) (Fin (1 / 4)) = f_sub (Fin h) (f_mul (Fin (1 / 4)) (f_log (Fin (1 / 4))))"
    by (rule Entropy_step_pos) (simp add: f_gt_def)
  also have "\<dots> = round64 (h + - t)"
    by (simp only: t(1) f_sub_def f_neg.simps f_add.simps)
  finally have s: "Entropy_step (Fin h) (Fin (1 / 4)) = round64 (h + - t)" .
  from assms(1,2) t(2,3) have "lo + 5 / 16 \<le> h + - t" "h + - t \<le> hi + 1 / 2" by simp_all
  from round64_between [OF this assms(3,4)] s show ?thesis by simp
qed

lemma Entropy_uniform4:
  "\<exists>h. Entropy (NewCategorical [Fin (1 / 4), Fin (1 / 4), Fin (1 / 4), Fin (1 / 4)]) = Fin h
       \<and> 5 / 4 \<le> h \<and> h \<le> 2"
proof -
  have r: "repr (5 / 16)" "repr (1 / 2)" "repr (5 / 8)" "repr 1" "repr (15 / 16)" "repr (3 / 2)"
    "repr (5 / 4)" "repr 2"
    using repr_dyadic [of 5 4] repr_dyadic [of 1 1] repr_dyadic [of 5 3] repr_int [of 1]
      repr_dyadic [of 15 4] repr_dyadic [of 3 1] repr_dyadic [of 5 2] repr_int [of 2]
    by simp_all
  obtain h1 where h1: "Entropy_step (Fin 0) (Fin (1 / 4)) = Fin h1" "5 / 16 \<le> h1" "h1 \<le> 1 / 2"
    using quarter_step [of 0 0 0] r by auto
  obtain h2 where h2: "Entropy_step (Fin h1) (Fin (1 / 4)) = Fin h2" "5 / 8 \<le> h2" "h2 \<le> 1"
    using quarter_step [OF h1(2,3)] r by auto
  obtain h3 where h3: "Entropy_step (Fin h2) (Fin (1 / 4)) = Fin h3" "15 / 16 \<le> h3" "h3 \<le> 3 / 2"
    using quarter_step [OF h2(2,3)] r by auto
  obtain h4 where h4: "Entropy_step (Fin h3) (Fin (1 / 4)) = Fin h4" "5 / 4 \<le> h4" "h4 \<le> 2"
    using quarter_step [OF h3(2,3)] r by auto
  have "Entropy (NewCategorical [Fin (1 / 4), Fin (1 / 4), Fin (1 / 4), Fin (1 / 4)]) = Fin h4"
    by (simp only: Entropy_def NewCategorical_def Categorical.simps foldl.simps h1(1) h2(1) h3(1) h4(1))
  with h4 show ?thesis by blast
qed

text \<open>
  Claim C3 as stated fails: \<open>LogProb\<close> of an outcome of probability 0 is \<open>-1e9\<close>, and the
  entropy of the uniform distribution on four outcomes (about \<open>ln 4\<close>) is at least \<open>5/4\<close>;
  \<open>Validate\<close> rejects both values.
\<close>

theorem LogProb_Entropy_outside_unit:
  "LogProb (NewCategorical [Fin (1 / 2), Fin (1 / 2)]) 2 = Fin (- 1000000000)
   \<and> Validate (LogProb (NewCategorical [Fin (1 / 2), Fin (1 / 2)]) 2) \<noteq> None
   \<and> f_le (Fin (5 / 4)) (Entropy (NewCategorical [Fin (1 / 4), Fin (1 / 4), Fin (1 / 4), Fin (1 / 4)]))
   \<and> Validate (Entropy (NewCategorical [Fin (1 / 4), Fin (1 / 4), Fin (1 / 4), Fin (1 / 4)])) \<noteq> None"
proof -
  have L: "LogProb (NewCategorical [Fin (1 / 2), Fin (1 / 2)]) 2 = Fin (- 1000000000)"
    by (simp add: LogProb_def Prob_def NewCategorical_def)
  from Entropy_uniform4 obtain h where
    E: "Entropy (NewCategorical [Fin (1 / 4), Fin (1 / 4), Fin (1 / 4), Fin (1 / 4)]) = Fin h"
      "5 / 4 \<le> h"
    by blast
  from E(2) have "5 / 4 < h \<or> 5 / 4 = h" "1 < h" by linarith+
  then show ?thesis
    by (simp add: L E(1) Validate_def f_gt_def f_le_def)
qed

section \<open>Properties of \<open>Node.SetCPT\<close>\<close>

lemma f_lt_NaN: "f_lt a NaN = False"
  by (cases a) simp_all

lemma SetCPT_loop_result:
  "SetCPT_loop ps sm =
     (if \<exists>p\<in>set ps. Validate p \<noteq> None
      then Inl (Errorf ''probability must be between 0 and 1'')
      else Inr (foldl f_add sm ps))"
proof (induction ps arbitrary: sm)
  case Nil
  show ?case by simp
next
  case (Cons p ps)
  show ?case
  proof (cases "Validate p")
    case None
    then show ?thesis by (simp add: Cons.IH)
  next
    case (Some err)
    then have "err = Errorf ''probability must be between 0 and 1''"
      by (simp add: Validate_def split: if_splits)
    with Some show ?thesis by simp
  qed
qed

lemma SetCPT_cases:
  "(\<exists>err. SetCPT n parentStates probabilities = (Some err, n))
   \<or> SetCPT n parentStates probabilities =
        (None, n\<lparr>CPT := (CPT n)(parentStates \<mapsto> probabilities)\<rparr>)"
  by (simp add: SetCPT_def split: sum.splits)

lemma SetCPT_error_iff:
  "fst (SetCPT n parentStates probabilities) \<noteq> None \<longleftrightarrow>
     length probabilities \<noteq> length (States n)
     \<or> (\<exists>p\<in>set probabilities. f_lt p (Fin 0) \<or> f_gt p (Fin 1))
     \<or> f_gt (f_abs (f_sub (foldl f_add (Fin 0) probabilities) (Fin 1))) (f_lit (1 / 1000000))"
proof -
  have V: "(\<exists>p\<in>set probabilities. Validate p \<noteq> None) \<longleftrightarrow>
           (\<exists>p\<in>set probabilities. f_lt p (Fin 0) \<or> f_gt p (Fin 1))"
    by (simp add: Validate_def)
  show ?thesis
    unfolding SetCPT_def SetCPT_loop_result V [symmetric]
    by (simp add: V)
qed

lemma SetCPT_error_iff_no_NaN:
  assumes "NaN \<notin> set probabilities"
  shows "fst (SetCPT n parentStates probabilities) \<noteq> None \<longleftrightarrow>
     length probabilities \<noteq> length (States n)
     \<or> (\<exists>p\<in>set probabilities. \<not> in_unit p)
     \<or> f_gt (f_abs (f_sub (foldl f_add (Fin 0) probabilities) (Fin 1))) (f_lit (1 / 1000000))"
proof -
  have "(\<exists>p\<in>set probabilities. f_lt p (Fin 0) \<or> f_gt p (Fin 1)) \<longleftrightarrow>
        (\<exists>p\<in>set probabilities. \<not> in_unit p)"
  proof (intro bex_cong refl)
    fix p assume "p \<in> set probabilities"
    with assms have "p \<noteq> NaN" by auto
    from Validate_None_iff [OF this] show "(f_lt p (Fin 0) \<or> f_gt p (Fin 1)) = (\<not> in_unit p)"
      by (simp add: Validate_def split: if_splits)
  qed
  then show ?thesis
    unfolding SetCPT_error_iff by (rule arg_cong [where f = "\<lambda>b. _ \<or> b \<or> _"])
qed

lemma SetCPT_stores_iff_nil:
  "(fst (SetCPT n parentStates probabilities) = None \<longrightarrow>
      snd (SetCPT n parentStates probabilities) = n\<lparr>CPT := (CPT n)(parentStates \<mapsto> probabilities)\<rparr>)
   \<and> (fst (SetCPT n parentStates probabilities) \<noteq> None \<longrightarrow>
      snd (SetCPT n parentStates probabilities) = n)"
  using SetCPT_cases [of n parentStates probabilities] by auto

text \<open>
  Claim C2 says that \<open>SetCPT\<close> returns an error exactly when the length of the list
  differs from the number of states, some entry lies outside \<open>[0,1]\<close>, or the sum differs
  from 1 by more than \<open>1e-6\<close>, and that it stores the list exactly when it returns \<open>nil\<close>.
  For lists without NaN this holds (\<open>SetCPT_error_iff_no_NaN\<close>, \<open>SetCPT_stores_iff_nil\<close>).
  At a list with a NaN entry it does not: NaN does not lie in \<open>[0,1]\<close>, yet \<open>Validate\<close> lets
  it pass (both of its comparisons are false), the sum is NaN, the comparison of the sum
  test is false too, and \<open>SetCPT\<close> stores the list and returns \<open>nil\<close>.
\<close>

theorem SetCPT_accepts_NaN:
  "SetCPT (NewNode ''TestNode'' [''true'', ''false'']) '''' [NaN, Fin (1 / 2)] =
     (None, \<lparr>Name = ''TestNode'', States = [''true'', ''false''],
             CPT = ['''' \<mapsto> [NaN, Fin (1 / 2)]]\<rparr>)
   \<and> \<not> in_unit NaN
   \<and> Validate NaN = None"
  by (simp add: SetCPT_def NewNode_def Validate_def f_gt_def f_sub_def in_unit_def f_le_def
      f_lt_NaN)

lemma Validate_simple_eq: "Validate_simple = Validate"
  by (rule ext) (simp add: Validate_simple_def Validate_def)

lemma SetCPT_loop_simple_eq: "SetCPT_loop_simple ps sm = SetCPT_loop ps sm"
  by (induction ps arbitrary: sm) (simp_all add: Validate_simple_eq split: option.splits)

lemma SetCPT_simple_eq:
  "SetCPT_simple n parentStates probabilities = SetCPT n parentStates probabilities"
  by (simp add: SetCPT_def SetCPT_simple_def SetCPT_loop_simple_eq)

text \<open>
  Claim C6, as amended. \<open>SetCPT\<close> of \<open>comprehensive_verify.go\<close> and \<open>SetCPT\<close> of the simple
  verification script are the same function: the same result and the same node for every
  input. \<open>SetCPT\<close> of \<open>verify_examples.go\<close> validates nothing: it always stores the list and
  returns \<open>nil\<close>, and so agrees with the other two exactly on the inputs they accept.
\<close>

theorem SetCPT_copies:
  "SetCPT n parentStates probabilities = SetCPT_simple n parentStates probabilities
   \<and> SetCPT_examples n parentStates probabilities =
       (None, n\<lparr>CPT := (CPT n)(parentStates \<mapsto> probabilities)\<rparr>)
   \<and> ((SetCPT_examples n parentStates probabilities = SetCPT n parentStates probabilities)
        = (fst (SetCPT n parentStates probabilities) = None))"
proof (intro conjI)
  show "SetCPT n parentStates probabilities = SetCPT_simple n parentStates probabilities"
    by (simp add: SetCPT_def SetCPT_simple_def SetCPT_loop_simple_eq)
  show "SetCPT_examples n parentStates probabilities =
       (None, n\<lparr>CPT := (CPT n)(parentStates \<mapsto> probabilities)\<rparr>)"
    by (simp add: SetCPT_examples_def)
  show "(SetCPT_examples n parentStates probabilities = SetCPT n parentStates probabilities)
        = (fst (SetCPT n parentStates probabilities) = None)"
  proof (cases "fst (SetCPT n parentStates probabilities)")
    case None
    with SetCPT_cases [of n parentStates probabilities] show ?thesis
      by (auto simp: SetCPT_examples_def)
  next
    case (Some err)
    then have "SetCPT n parentStates probabilities \<noteq> (None, n\<lparr>CPT := (CPT n)(parentStates \<mapsto> probabilities)\<rparr>)"
      by auto
    with Some show ?thesis
      by (simp add: SetCPT_examples_def)
  qed
qed

text \<open>The list \<open>[0.5, 0.3]\<close>, which the simple script uses as its invalid CPT: \<open>0.3\<close> is
  the float64 nearest to 3/10, and the float64 sum lies between 3/4 and 7/8.\<close>

lemma SetCPT_half_three_tenths:
  "SetCPT n parentStates [Fin (1 / 2), f_lit (3 / 10)] =
     (if length (States n) = 2
      then (Some (Errorf ''probabilities must sum to 1''), n)
      else (Some (Errorf ''probabilities length must match number of states''), n))"
proof -
  have r: "repr (1 / 4)" "repr (3 / 8)" "repr (3 / 4)" "repr (7 / 8)" "repr (- (1 / 4))"
    "repr (- (1 / 8))" "repr 0" "repr (1 / 2 ^ 19)" "repr (1 / 2)"
    using repr_dyadic [of 1 2] repr_dyadic [of 3 3] repr_dyadic [of 3 2] repr_dyadic [of 7 3]
      repr_dyadic [of "- 1" 2] repr_dyadic [of "- 1" 3] repr_int [of 0] repr_dyadic [of 1 19]
      repr_dyadic [of 1 1]
    by simp_all
  obtain y where y: "f_lit (3 / 10) = Fin y" "1 / 4 \<le> y" "y \<le> 3 / 8"
    using round64_between [of "1 / 4" "3 / 10" "3 / 8"] r by (auto simp: f_lit_def)
  have s1: "f_add (Fin 0) (Fin (1 / 2)) = Fin (1 / 2)"
    using round64_repr [OF r(9)] by simp
  obtain s where s: "f_add (Fin (1 / 2)) (Fin y) = Fin s" "3 / 4 \<le> s" "s \<le> 7 / 8"
    using round64_between [of "3 / 4" "1 / 2 + y" "7 / 8"] r y by auto
  obtain d where d: "f_sub (Fin s) (Fin 1) = Fin d" "- (1 / 4) \<le> d" "d \<le> - (1 / 8)"
    using round64_between [of "- (1 / 4)" "s + - 1" "- (1 / 8)"] r s by (auto simp: f_sub_def)
  obtain t where t: "f_lit (1 / 1000000) = Fin t" "0 \<le> t" "t \<le> 1 / 2 ^ 19"
    using round64_between [of 0 "1 / 1000000" "1 / 2 ^ 19"] r by (auto simp: f_lit_def)
  from d t have gt: "f_gt (f_abs (f_sub (Fin s) (Fin 1))) (f_lit (1 / 1000000))"
    by (simp add: f_gt_def)
  have V: "Validate (Fin (1 / 2)) = None" "Validate (Fin y) = None"
    using y by (simp_all add: Validate_def f_gt_def)
  have "SetCPT_loop [Fin (1 / 2), f_lit (3 / 10)] (Fin 0) = Inr (Fin s)"
    by (simp only: y(1) SetCPT_loop.simps V option.case s1 s(1))
  with gt show ?thesis
    by (simp add: SetCPT_def)
qed

text \<open>
  Claim C6 as stated fails on the list the simple script itself uses to test the
  validation (it sums to 0.8): the two validating copies reject it and leave the node as
  it was, \<open>verify_examples.go\<close> stores it and returns \<open>nil\<close>.
\<close>

theorem SetCPT_examples_differs:
  "SetCPT (NewNode ''TestNode'' [''true'', ''false'']) ''invalid'' [Fin (5 / 10), f_lit (3 / 10)] =
     (Some (Errorf ''probabilities must sum to 1''), NewNode ''TestNode'' [''true'', ''false''])
   \<and> SetCPT_simple (NewNode ''TestNode'' [''true'', ''false'']) ''invalid'' [Fin (5 / 10), f_lit (3 / 10)] =
     (Some (Errorf ''probabilities must sum to 1''), NewNode ''TestNode'' [''true'', ''false''])
   \<and> SetCPT_examples (NewNode ''TestNode'' [''true'', ''false'']) ''invalid'' [Fin (5 / 10), f_lit (3 / 10)] =
     (None, \<lparr>Name = ''TestNode'', States = [''true'', ''false''],
             CPT = [''invalid'' \<mapsto> [Fin (5 / 10), f_lit (3 / 10)]]\<rparr>)"
  by (simp add: SetCPT_simple_eq SetCPT_half_three_tenths SetCPT_examples_def NewNode_def)

text \<open>A run in which rounding decides. The exact sum of \<open>1\<close> and \<open>72057594039 / 2 ^ 56\<close>
  differs from 1 by more than \<open>1e-6\<close>; the float64 sum is \<open>1 + 4503599627 / 2 ^ 52\<close>, which
  differs from 1 by less than the float64 constant \<open>1e-6\<close>, and the list is stored.\<close>

lemma ulp_exp_binade:
  assumes "2 powr real_of_int k \<le> x" "x < 2 powr real_of_int (k + 1)"
  shows "ulp_exp x = max (k - 52) (- 1074)"
proof -
  have "0 < (2::real) powr real_of_int k" by simp
  with assms(1) have x: "0 < x" by linarith
  have "\<lfloor>log 2 x\<rfloor> = k"
    using floor_log_eq_powr_iff [of x 2 k] x assms by simp
  then show ?thesis by (simp add: ulp_exp_def)
qed

lemma pow2_neg: "(2::real) powr real_of_int (- int n) = 1 / 2 ^ n"
proof -
  have "(2::real) powr real_of_int (- int n) = inverse (2 powr real n)"
    by (simp add: powr_minus)
  also have "\<dots> = 1 / 2 ^ n" by (simp add: powr_realpow inverse_eq_divide)
  finally show ?thesis .
qed

lemma round64_near_one:
  "round64 (1 + 72057594039 / 2 ^ 56) = Fin (4503604130970123 / 2 ^ 52)"
proof -
  let ?x = "1 + 72057594039 / 2 ^ 56 :: real"
  have "2 powr real_of_int 0 \<le> ?x" "?x < 2 powr real_of_int (0 + 1)" by simp_all
  from ulp_exp_binade [OF this] have e: "ulp_exp ?x = - int 52" by simp
  have q: "?x / (1 / 2 ^ 52) = 72057666095521975 / 16" by simp
  have "rne (72057666095521975 / 16) = 4503604130970123"
    by (simp add: rne_def Let_def)
  then have "round_val ?x = 4503604130970123 / 2 ^ 52"
    unfolding round_val_def e pow2_neg q by simp
  then show ?thesis
    by (simp add: round64_def round_pos_def)
qed

lemma SetCPT_rounding_decides:
  "SetCPT (NewNode ''TestNode'' [''true'', ''false'']) ''k'' [Fin 1, Fin (72057594039 / 2 ^ 56)] =
     (None, \<lparr>Name = ''TestNode'', States = [''true'', ''false''],
             CPT = [''k'' \<mapsto> [Fin 1, Fin (72057594039 / 2 ^ 56)]]\<rparr>)
   \<and> 1 / 1000000 < \<bar>1 + 72057594039 / 2 ^ 56 - 1 :: real\<bar>"
proof -
  have r: "repr 1" "repr (4503599627 / 2 ^ 52)" "repr (18014398509 / 2 ^ 54)" "repr (1 / 2 ^ 19)"
    using repr_int [of 1] repr_dyadic [of 4503599627 52] repr_dyadic [of 18014398509 54]
      repr_dyadic [of 1 19]
    by simp_all
  have s1: "f_add (Fin 0) (Fin 1) = Fin 1"
    using round64_repr [OF r(1)] by simp
  have s2: "f_add (Fin 1) (Fin (72057594039 / 2 ^ 56)) = Fin (4503604130970123 / 2 ^ 52)"
    using round64_near_one by simp
  have d: "f_sub (Fin (4503604130970123 / 2 ^ 52)) (Fin 1) = Fin (4503599627 / 2 ^ 52)"
    using round64_repr [OF r(2)] by (simp add: f_sub_def)
  obtain t where t: "f_lit (1 / 1000000) = Fin t" "18014398509 / 2 ^ 54 \<le> t"
    using round64_between [of "18014398509 / 2 ^ 54" "1 / 1000000" "1 / 2 ^ 19"] r
    by (auto simp: f_lit_def)
  from t have ngt: "\<not> f_gt (f_abs (Fin (4503599627 / 2 ^ 52))) (f_lit (1 / 1000000))"
    by (simp add: f_gt_def)
  have V: "Validate (Fin 1) = None" "Validate (Fin (72057594039 / 2 ^ 56)) = None"
    by (simp_all add: Validate_def f_gt_def)
  have "SetCPT_loop [Fin 1, Fin (72057594039 / 2 ^ 56)] (Fin 0) = Inr (Fin (4503604130970123 / 2 ^ 52))"
    by (simp only: SetCPT_loop.simps V option.case s1 s2)
  with ngt d show ?thesis
    by (simp add: SetCPT_def NewNode_def)
qed

section \<open>Properties of the test runner\<close>

lemma Passed_runModuleTests: "Passed (runModuleTests exec m) = (\<not> failed exec m)"
  by (simp add: runModuleTests_def failed_def Let_def)

lemma Duration_runModuleTests:
  "Duration (runModuleTests exec m) = elapsed (exec (''../methods/'' @ m @ ''/''))"
  by (simp add: runModuleTests_def Let_def)

lemma run_loop_step:
  "run_loop exec (m # ms) (out, results, passedTests) =
     run_loop exec ms
       (out @ [Printf_Running m, verdict_line exec m, Println (replicate 50 CHR ''-'')],
        results @ [runModuleTests exec m],
        passedTests + (if failed exec m then 0 else 1))"
  by (simp add: Let_def Passed_runModuleTests Duration_runModuleTests verdict_line_def)

lemma run_loop_result:
  "run_loop exec ms (out, results, passedTests) =
     (out @ concat (map (\<lambda>m. [Printf_Running m, verdict_line exec m,
                                Println (replicate 50 CHR ''-'')]) ms),
      results @ map (runModuleTests exec) ms,
      passedTests + int (length (filter (\<lambda>m. \<not> failed exec m) ms)))"
proof (induction ms arbitrary: out results passedTests)
  case Nil
  show ?case by simp
next
  case (Cons m ms)
  show ?case
    unfolding run_loop_step Cons.IH by simp
qed

lemma failed_loop_verdicts:
  "filter is_verdict (fst (failed_loop rs (out, failedCount))) = filter is_verdict out"
proof (induction rs arbitrary: out failedCount)
  case Nil
  show ?case by simp
next
  case (Cons r rs)
  show ?case by (simp add: Cons.IH Let_def)
qed

lemma verdicts_of_run:
  "filter is_verdict (concat (map (\<lambda>m. [Printf_Running m, verdict_line exec m,
                                Println (replicate 50 CHR ''-'')]) ms)) =
   map (verdict_line exec) ms"
  by (induction ms) (simp_all add: verdict_line_def)

lemma all_pass_iff:
  "int (length (filter P xs)) = int (length xs) \<longleftrightarrow> (\<forall>x\<in>set xs. P x)"
proof -
  have "length (filter P xs) = length xs \<longleftrightarrow> (\<forall>x\<in>set xs. P x)"
    by (metis filter_id_conv length_filter_le filter_True le_antisym length_filter_less
        less_irrefl_nat)
  then show ?thesis by simp
qed


text \<open>
  Claim C7. The test runner prints one pass/fail line for every module, in order; it
  exits with status 1 exactly when the test command of at least one module reports
  failure, and with status 0 exactly when every module passes, in which case the output
  ends with the five lines of the success summary and the total time.
\<close>

theorem main_exit_status:
  "(snd (main exec) = 1 \<longleftrightarrow> (\<exists>m\<in>set modules. failed exec m))
   \<and> (snd (main exec) = 0 \<longleftrightarrow> (\<forall>m\<in>set modules. \<not> failed exec m))
   \<and> filter is_verdict (fst (main exec)) = map (verdict_line exec) modules
   \<and> ((\<forall>m\<in>set modules. \<not> failed exec m) \<longrightarrow>
        (\<exists>pre d. fst (main exec) =
           pre @ [Println ''ALL TESTS PASSED!'',
                  Println ''Active Inference framework is fully functional!'',
                  Println ''All modules are production-ready!'',
                  Println ''100% test coverage achieved!'',
                  Println ''Ready for deployment on Gno blockchain!'',
                  Printf_total_time d]))"
proof -
  define out0 where "out0 = [Println ''=== Active Inference Comprehensive Test Runner ==='']"
  define run_lines where
    "run_lines = concat (map (\<lambda>m. [Printf_Running m, verdict_line exec m,
                                     Println (replicate 50 CHR ''-'')]) modules)"
  define results where "results = map (runModuleTests exec) modules"
  define passed where "passed = int (length (filter (\<lambda>m. \<not> failed exec m) modules))"
  define summary where
    "summary = [Println ''=== TEST RESULTS SUMMARY ==='',
                Printf_Total_Modules (int (length modules)),
                Printf_Passed passed,
                Printf_Failed (int (length modules) - passed),
                Printf_Success_Rate passed (int (length modules))]"
  define success where
    "success = [Println ''ALL TESTS PASSED!'',
                Println ''Active Inference framework is fully functional!'',
                Println ''All modules are production-ready!'',
                Println ''100% test coverage achieved!'',
                Println ''Ready for deployment on Gno blockchain!'']"
  have R: "run_loop exec modules (out0, [], 0) = (out0 @ run_lines, results, passed)"
    unfolding run_loop_result run_lines_def results_def passed_def by simp
  obtain out3 fc where F: "failed_loop results ((out0 @ run_lines) @ summary, 0) = (out3, fc)"
    by (cases "failed_loop results ((out0 @ run_lines) @ summary, 0)") blast
  have "filter is_verdict out3 = filter is_verdict ((out0 @ run_lines) @ summary)"
    using failed_loop_verdicts [of results "(out0 @ run_lines) @ summary" 0] F by simp
  also have "\<dots> = map (verdict_line exec) modules"
    by (simp add: out0_def summary_def run_lines_def verdicts_of_run)
  finally have V: "filter is_verdict out3 = map (verdict_line exec) modules" .
  have M: "main exec =
      (if passed = int (length modules)
       then (out3 @ success @ [Printf_total_time (foldl (+) 0 (map Duration results))], 0)
       else (out3 @ [Printf_modules_failed (int (length modules) - passed)], 1))"
    unfolding main_def Let_def out0_def [symmetric] R prod.case summary_def [symmetric] F
      success_def [symmetric]
    by (rule refl)
  have P: "passed = int (length modules) \<longleftrightarrow> (\<forall>m\<in>set modules. \<not> failed exec m)"
    unfolding passed_def by (rule all_pass_iff)
  show ?thesis
  proof (cases "passed = int (length modules)")
    case True
    with M have E: "main exec =
        (out3 @ success @ [Printf_total_time (foldl (+) 0 (map Duration results))], 0)"
      by simp
    have "filter is_verdict success = []"
      by (simp add: success_def)
    with E V have "filter is_verdict (fst (main exec)) = map (verdict_line exec) modules"
      by simp
    moreover from E have "\<exists>pre d. fst (main exec) = pre @ success @ [Printf_total_time d]"
      by auto
    then have "\<exists>pre d. fst (main exec) =
           pre @ [Println ''ALL TESTS PASSED!'',
                  Println ''Active Inference framework is fully functional!'',
                  Println ''All modules are production-ready!'',
                  Println ''100% test coverage achieved!'',
                  Println ''Ready for deployment on Gno blockchain!'',
                  Printf_total_time d]"
      by (simp add: success_def)
    moreover from E have "snd (main exec) = 0" by simp
    ultimately show ?thesis
      using True P by simp
  next
    case False
    with M have "main exec = (out3 @ [Printf_modules_failed (int (length modules) - passed)], 1)"
      by simp
    then show ?thesis
      using False P V by auto
  qed
qed

theorem main_exit_status_witness:
  "snd (main (\<lambda>path. \<lparr>combined_output = ''ok'', run_err = None, elapsed = 1\<rparr>)) = 0
   \<and> snd (main (\<lambda>path. if path = ''../methods/probability/''
                        then \<lparr>combined_output = ''FAIL'', run_err = Some (Errorf ''exit status 1''), elapsed = 2\<rparr>
                        else \<lparr>combined_output = ''ok'', run_err = None, elapsed = 1\<rparr>)) = 1
   \<and> filter is_verdict (fst (main (\<lambda>path. \<lparr>combined_output = ''ok'', run_err = None, elapsed = 1\<rparr>))) =
       replicate 9 (Printf_PASSED 1)
   \<and> (\<exists>pre d. fst (main (\<lambda>path. \<lparr>combined_output = ''ok'', run_err = None, elapsed = 1\<rparr>)) =
           pre @ [Println ''ALL TESTS PASSED!'',
                  Println ''Active Inference framework is fully functional!'',
                  Println ''All modules are production-ready!'',
                  Println ''100% test coverage achieved!'',
                  Println ''Ready for deployment on Gno blockchain!'',
                  Printf_total_time d])"
  using main_exit_status [of "\<lambda>path. \<lparr>combined_output = ''ok'', run_err = None, elapsed = 1\<rparr>"]
    main_exit_status [of "\<lambda>path. if path = ''../methods/probability/''
                        then \<lparr>combined_output = ''FAIL'', run_err = Some (Errorf ''exit status 1''), elapsed = 2\<rparr>
                        else \<lparr>combined_output = ''ok'', run_err = None, elapsed = 1\<rparr>"]
  by (simp add: modules_def failed_def verdict_line_def numeral_eq_Suc)

section \<open>Properties of the parallel runner\<close>








end
